theory Spec2Isabelle
  imports Complex_Main
begin

section \<open>Errors and Python arithmetic\<close>

text \<open>
  The Python exceptions that the modelled functions can raise. A function that can raise
  returns \<open>error + 'a\<close>, with \<open>Inl\<close> for the exception.
\<close>

datatype error = ZeroDivisionError | IndexError | TypeError | OverflowError | ValueError

text \<open>Integer floor division \<^verbatim>\<open>a // b\<close>: raises on a zero divisor, rounds towards minus infinity.\<close>

definition floordiv :: "int \<Rightarrow> int \<Rightarrow> error + int" where
  "floordiv a b = (if b = 0 then Inl ZeroDivisionError else Inr (a div b))"

text \<open>
  \<^verbatim>\<open>fractions.Fraction\<close> values are exact rationals in lowest terms with a positive
  denominator: the type \<open>rat\<close>. \<^verbatim>\<open>Fraction(n, d)\<close> raises on \<open>d = 0\<close>, and so does the
  division of two fractions when the divisor is zero.
\<close>

definition Fraction :: "int \<Rightarrow> int \<Rightarrow> error + rat" where
  "Fraction n d = (if d = 0 then Inl ZeroDivisionError else Inr (Fract n d))"

definition numerator :: "rat \<Rightarrow> int" where
  "numerator x = fst (quotient_of x)"

definition denominator :: "rat \<Rightarrow> int" where
  "denominator x = snd (quotient_of x)"

definition fraction_div :: "rat \<Rightarrow> rat \<Rightarrow> error + rat" where
  "fraction_div a b = (if b = 0 then Inl ZeroDivisionError else Inr (a / b))"

text \<open>
  A number handed to the scheduler is an int or a float: a finite one has an exact
  rational value, and a float can also be an infinity or not a number. \<^verbatim>\<open>Fraction(x)\<close> is
  the exact value of a finite \<open>x\<close>; it raises \<^verbatim>\<open>OverflowError\<close> on an infinity and
  \<^verbatim>\<open>ValueError\<close> on a NaN.
\<close>

datatype number = Finite rat | PosInf | NegInf | NaN

fun Fraction_of_number :: "number \<Rightarrow> error + rat" where
  "Fraction_of_number (Finite x) = Inr x"
| "Fraction_of_number PosInf = Inl OverflowError"
| "Fraction_of_number NegInf = Inl OverflowError"
| "Fraction_of_number NaN = Inl ValueError"

section \<open>The standard library's \<^verbatim>\<open>Fraction.limit_denominator\<close>\<close>

text \<open>
  \<^verbatim>\<open>prepare_n_shooting\<close> converts every number with
  \<^verbatim>\<open>Fraction(x).limit_denominator()\<close>.
  \<^verbatim>\<open>limit_denominator\<close> is the continued-fraction loop of CPython's \<^verbatim>\<open>fractions\<close> module,
  with the default bound of one million:
  \<^verbatim>\<open>
    if self._denominator <= max_denominator: return Fraction(self)
    p0, q0, p1, q1 = 0, 1, 1, 0
    n, d = self._numerator, self._denominator
    while True:
        a = n//d
        q2 = q0+a*q1
        if q2 > max_denominator: break
        p0, q0, p1, q1 = p1, q1, p0+a*p1, q2
        n, d = d, n-a*d
    k = (max_denominator-q0)//q1
    bound1 = Fraction(p0+k*p1, q0+k*q1)
    bound2 = Fraction(p1, q1)
    if abs(bound2 - self) <= abs(bound1-self): return bound2
    else: return bound1
  \<close>
\<close>

definition max_denominator :: int where
  "max_denominator = 1000000"

function limit_denominator_loop ::
  "int \<Rightarrow> int \<Rightarrow> int \<Rightarrow> int \<Rightarrow> int \<Rightarrow> int \<Rightarrow> int \<Rightarrow> error + (int \<times> int \<times> int \<times> int)" where
  "limit_denominator_loop M p0 q0 p1 q1 n d =
     (case floordiv n d of
        Inl e \<Rightarrow> Inl e
      | Inr a \<Rightarrow>
          (let q2 = q0 + a * q1 in
           if q2 > M then Inr (p0, q0, p1, q1)
           else limit_denominator_loop M p1 q1 (p0 + a * p1) q2 d (n - a * d)))"
  by pat_completeness auto
termination
proof (relation "measure (\<lambda>(M, p0, q0, p1, q1, n, d). nat \<bar>d\<bar>)")
  show "wf (measure (\<lambda>(M, p0, q0, p1, q1, n, d). nat \<bar>d\<bar>))"
    by simp
next
  fix M p0 q0 p1 q1 n d :: int and a q2
  assume a: "floordiv n d = Inr a"
  then have d: "d \<noteq> 0" and a_eq: "a = n div d"
    by (auto simp: floordiv_def split: if_splits)
  have "n - a * d = n mod d"
    using a_eq by (simp add: minus_div_mult_eq_mod)
  moreover have "\<bar>n mod d\<bar> < \<bar>d\<bar>"
    using d by (rule abs_mod_less)
  ultimately show "((M, p1, q1, p0 + a * p1, q2, d, n - a * d), (M, p0, q0, p1, q1, n, d))
      \<in> measure (\<lambda>(M, p0, q0, p1, q1, n, d). nat \<bar>d\<bar>)"
    by simp
qed

declare limit_denominator_loop.simps [simp del]

definition limit_denominator :: "rat \<Rightarrow> error + rat" where
  "limit_denominator x =
     (if denominator x \<le> max_denominator then Inr x
      else
        (case limit_denominator_loop max_denominator 0 1 1 0 (numerator x) (denominator x) of
           Inl e \<Rightarrow> Inl e
         | Inr (p0, q0, p1, q1) \<Rightarrow>
             (case floordiv (max_denominator - q0) q1 of
                Inl e \<Rightarrow> Inl e
              | Inr k \<Rightarrow>
                  (case Fraction (p0 + k * p1) (q0 + k * q1) of
                     Inl e \<Rightarrow> Inl e
                   | Inr bound1 \<Rightarrow>
                       (case Fraction p1 q1 of
                          Inl e \<Rightarrow> Inl e
                        | Inr bound2 \<Rightarrow>
                            if \<bar>bound2 - x\<bar> \<le> \<bar>bound1 - x\<bar> then Inr bound2
                            else Inr bound1)))))"

section \<open>\<^verbatim>\<open>OcpFes.prepare_n_shooting\<close>\<close>

text \<open>
  \<open>to_fraction\<close> is \<^verbatim>\<open>Fraction(x).limit_denominator()\<close>.
  \<^verbatim>\<open>
    T_final = Fraction(final_time).limit_denominator()
    n_shooting = 1
    for t in stim_time:
        t_frac = Fraction(t).limit_denominator()
        norm = t_frac / T_final
        d = norm.denominator
        n_shooting = n_shooting * d // gcd(n_shooting, d)
    if n_shooting >= 1000: print(...)
    return n_shooting
  \<close>
  The warning printed for a high node count changes nothing in the returned value;
  \<open>n_shooting_warning\<close> says when it is printed.
\<close>

definition to_fraction :: "number \<Rightarrow> error + rat" where
  "to_fraction x =
     (case Fraction_of_number x of
        Inl e \<Rightarrow> Inl e
      | Inr q \<Rightarrow> limit_denominator q)"

fun n_shooting_loop :: "rat \<Rightarrow> number list \<Rightarrow> int \<Rightarrow> error + int" where
  "n_shooting_loop T_final [] n_shooting = Inr n_shooting"
| "n_shooting_loop T_final (t # ts) n_shooting =
     (case to_fraction t of
        Inl e \<Rightarrow> Inl e
      | Inr t_frac \<Rightarrow>
          (case fraction_div t_frac T_final of
             Inl e \<Rightarrow> Inl e
           | Inr norm_t \<Rightarrow>
               (let d = denominator norm_t in
                case floordiv (n_shooting * d) (gcd n_shooting d) of
                  Inl e \<Rightarrow> Inl e
                | Inr n' \<Rightarrow> n_shooting_loop T_final ts n')))"

definition prepare_n_shooting :: "number list \<Rightarrow> number \<Rightarrow> error + int" where
  "prepare_n_shooting stim_time final_time =
     (case to_fraction final_time of
        Inl e \<Rightarrow> Inl e
      | Inr T_final \<Rightarrow> n_shooting_loop T_final stim_time 1)"

definition n_shooting_warning :: "int \<Rightarrow> bool" where
  "n_shooting_warning n_shooting = (n_shooting \<ge> 1000)"

text \<open>
  The fraction a finite number of exact value \<open>x\<close> is converted to. \<open>limit_denominator\<close>
  never raises (lemma \<open>limit_denominator_total\<close> below), so the second case is never taken.
\<close>

definition as_fraction :: "rat \<Rightarrow> rat" where
  "as_fraction x = (case limit_denominator x of Inr q \<Rightarrow> q | Inl e \<Rightarrow> 0)"

text \<open>The denominator \<open>d_i\<close> required by one stimulation time, for the converted horizon \<open>T\<close>.\<close>

definition required_denominator :: "rat \<Rightarrow> rat \<Rightarrow> int" where
  "required_denominator T t = denominator (as_fraction t / T)"

section \<open>The Ding 2003 frequency model (\<^verbatim>\<open>DingModelFrequency\<close>)\<close>

text \<open>
  The numbers of the dynamics (states, times, parameters) are modelled as \<open>real\<close>. Float
  division \<^verbatim>\<open>a / b\<close> raises on a zero divisor; list indexing accepts the negative indices
  of Python and raises out of range.
\<close>

definition truediv :: "real \<Rightarrow> real \<Rightarrow> error + real" where
  "truediv a b = (if b = 0 then Inl ZeroDivisionError else Inr (a / b))"

definition getitem :: "'a list \<Rightarrow> int \<Rightarrow> error + 'a" where
  "getitem xs i =
     (if 0 \<le> i \<and> i < int (length xs) then Inr (xs ! nat i)
      else if i < 0 \<and> - int (length xs) \<le> i then Inr (xs ! nat (int (length xs) + i))
      else Inl IndexError)"

text \<open>The attributes of a model instance that the dynamics and the constraint builder read.\<close>

record ding_model =
  sum_stim_truncation :: "int option"
  is_approximated :: bool
  tauc :: real
  r0_km_relationship :: real
  a_rest :: real
  tau1_rest :: real
  tau2 :: real
  km_rest :: real

text \<open>\<^verbatim>\<open>__init__\<close>, with the default values of the constants.\<close>

definition DingModelFrequency :: "int option \<Rightarrow> bool \<Rightarrow> ding_model" where
  "DingModelFrequency truncation approximated =
     \<lparr>sum_stim_truncation = truncation,
      is_approximated = approximated,
      tauc = 20 / 1000,
      r0_km_relationship = 104 / 100,
      a_rest = 3009,
      tau1_rest = 50957 / 1000000,
      tau2 = 60 / 1000,
      km_rest = 103 / 1000\<rparr>"

definition set_a_rest :: "ding_model \<Rightarrow> real \<Rightarrow> ding_model" where
  "set_a_rest m v = m\<lparr>a_rest := v\<rparr>"

definition set_km_rest :: "ding_model \<Rightarrow> real \<Rightarrow> ding_model" where
  "set_km_rest m v = m\<lparr>km_rest := v\<rparr>"



definition get_r0 :: "ding_model \<Rightarrow> real \<Rightarrow> real" where
  "get_r0 m km = km + r0_km_relationship m"

text \<open>\<^verbatim>\<open>[1 for _ in range(nb_stim)]\<close>\<close>

definition get_lambda_i :: "nat \<Rightarrow> real \<Rightarrow> real list" where
  "get_lambda_i nb_stim pulse_intensity = map (\<lambda>_. 1) [0..<nb_stim]"

text \<open>\<^verbatim>\<open>exp(-(t - t_stim_i) / self.tauc)\<close>\<close>

definition exp_time_fun :: "ding_model \<Rightarrow> real \<Rightarrow> real \<Rightarrow> error + real" where
  "exp_time_fun m t t_stim_i =
     (case truediv (- (t - t_stim_i)) (tauc m) of
        Inl e \<Rightarrow> Inl e
      | Inr x \<Rightarrow> Inr (exp x))"

text \<open>\<^verbatim>\<open>1 + (r0 - 1) * exp(-time_between_stim / self.tauc)\<close>\<close>

definition ri_fun :: "ding_model \<Rightarrow> real \<Rightarrow> real \<Rightarrow> error + real" where
  "ri_fun m r0 time_between_stim =
     (case truediv (- time_between_stim) (tauc m) of
        Inl e \<Rightarrow> Inl e
      | Inr x \<Rightarrow> Inr (1 + (r0 - 1) * exp x))"

text \<open>
  \<^verbatim>\<open>cn_sum_fun\<close>:
  \<^verbatim>\<open>
    sum_multiplier = 0
    for i in range(len(t_stim_prev)):
        previous_phase_time = t_stim_prev[i] - t_stim_prev[i - 1]
        ri = 1 if i == 0 else self.ri_fun(r0, previous_phase_time)
        exp_time = self.exp_time_fun(t, t_stim_prev[i])
        coefficient = 1 if self.is_approximated else if_else(t_stim_prev[i] <= t, 1, 0)
        sum_multiplier += ri * exp_time * lambda_i[i] * coefficient
    return sum_multiplier
  \<close>
  \<open>cn_sum_term\<close> is the body from the second line on, given the value read for
  \<^verbatim>\<open>t_stim_prev[i]\<close> and the gap \<^verbatim>\<open>previous_phase_time\<close>; \<open>cn_sum_body\<close> is the whole body.
  At \<open>i = 0\<close> the index \<open>i - 1\<close> is \<open>-1\<close>: the last element of the list.
\<close>

definition cn_sum_term ::
  "ding_model \<Rightarrow> real \<Rightarrow> real \<Rightarrow> real \<Rightarrow> real \<Rightarrow> real list \<Rightarrow> nat \<Rightarrow> error + real" where
  "cn_sum_term m r0 t t_stim_i previous_phase_time lambda_i i =
     (case (if i = 0 then Inr 1 else ri_fun m r0 previous_phase_time) of
        Inl e \<Rightarrow> Inl e
      | Inr ri \<Rightarrow>
          (case exp_time_fun m t t_stim_i of
             Inl e \<Rightarrow> Inl e
           | Inr exp_time \<Rightarrow>
               (let coefficient =
                      (if is_approximated m then 1 else if t_stim_i \<le> t then 1 else 0)
                in case getitem lambda_i (int i) of
                     Inl e \<Rightarrow> Inl e
                   | Inr l \<Rightarrow> Inr (ri * exp_time * l * coefficient))))"

definition cn_sum_body ::
  "ding_model \<Rightarrow> real \<Rightarrow> real \<Rightarrow> real list \<Rightarrow> real list \<Rightarrow> nat \<Rightarrow> real \<Rightarrow> error + real" where
  "cn_sum_body m r0 t t_stim_prev lambda_i i sum_multiplier =
     (case getitem t_stim_prev (int i) of
        Inl e \<Rightarrow> Inl e
      | Inr t_stim_i \<Rightarrow>
          (case getitem t_stim_prev (int i - 1) of
             Inl e \<Rightarrow> Inl e
           | Inr t_stim_before \<Rightarrow>
               (case cn_sum_term m r0 t t_stim_i (t_stim_i - t_stim_before) lambda_i i of
                  Inl e \<Rightarrow> Inl e
                | Inr x \<Rightarrow> Inr (sum_multiplier + x))))"

fun cn_sum_loop ::
  "ding_model \<Rightarrow> real \<Rightarrow> real \<Rightarrow> real list \<Rightarrow> real list \<Rightarrow> nat list \<Rightarrow> real \<Rightarrow> error + real" where
  "cn_sum_loop m r0 t t_stim_prev lambda_i [] sum_multiplier = Inr sum_multiplier"
| "cn_sum_loop m r0 t t_stim_prev lambda_i (i # rest) sum_multiplier =
     (case cn_sum_body m r0 t t_stim_prev lambda_i i sum_multiplier of
        Inl e \<Rightarrow> Inl e
      | Inr s \<Rightarrow> cn_sum_loop m r0 t t_stim_prev lambda_i rest s)"

definition cn_sum_fun :: "ding_model \<Rightarrow> real \<Rightarrow> real \<Rightarrow> real list \<Rightarrow> real list \<Rightarrow> error + real" where
  "cn_sum_fun m r0 t t_stim_prev lambda_i =
     cn_sum_loop m r0 t t_stim_prev lambda_i [0..<length t_stim_prev] 0"

text \<open>
  \<^verbatim>\<open>(1 / self.tauc) * cn_sum - (cn / self.tauc)\<close>. The caller \<^verbatim>\<open>dynamics\<close> passes
  \<^verbatim>\<open>cn_sum=None\<close> in exact mode and \<^verbatim>\<open>t_stim_prev=None\<close> in approximated mode, so both are
  options; multiplying by \<^verbatim>\<open>None\<close> and \<^verbatim>\<open>len(None)\<close> raise \<^verbatim>\<open>TypeError\<close>.
\<close>

definition cn_dot_fun :: "ding_model \<Rightarrow> real \<Rightarrow> real option \<Rightarrow> error + real" where
  "cn_dot_fun m cn cn_sum =
     (case truediv 1 (tauc m) of
        Inl e \<Rightarrow> Inl e
      | Inr inv_tauc \<Rightarrow>
          (case cn_sum of
             None \<Rightarrow> Inl TypeError
           | Some s \<Rightarrow>
               (case truediv cn (tauc m) of
                  Inl e \<Rightarrow> Inl e
                | Inr q \<Rightarrow> Inr (inv_tauc * s - q))))"

definition calculate_cn_dot ::
  "ding_model \<Rightarrow> real \<Rightarrow> real option \<Rightarrow> real \<Rightarrow> real list option \<Rightarrow> real \<Rightarrow> error + real" where
  "calculate_cn_dot m cn cn_sum t t_stim_prev pulse_intensity =
     (if is_approximated m then cn_dot_fun m cn cn_sum
      else
        (case t_stim_prev of
           None \<Rightarrow> Inl TypeError
         | Some stims \<Rightarrow>
             (case cn_sum_fun m (get_r0 m (km_rest m)) t stims
                     (get_lambda_i (length stims) pulse_intensity) of
                Inl e \<Rightarrow> Inl e
              | Inr s \<Rightarrow> cn_dot_fun m cn (Some s))))"

text \<open>
  \<^verbatim>\<open>(a * (cn / (km + cn)) - (f / (tau1 + self.tau2 * (cn / (km + cn)))))
     * force_length_relationship * force_velocity_relationship\<close>;
  the quotient \<^verbatim>\<open>cn / (km + cn)\<close>, written twice in the source, is computed first.
\<close>

definition f_dot_fun ::
  "ding_model \<Rightarrow> real \<Rightarrow> real \<Rightarrow> real \<Rightarrow> real \<Rightarrow> real \<Rightarrow> real \<Rightarrow> real \<Rightarrow> error + real" where
  "f_dot_fun m cn f a tau1 km force_length_relationship force_velocity_relationship =
     (case truediv cn (km + cn) of
        Inl e \<Rightarrow> Inl e
      | Inr x \<Rightarrow>
          (case truediv f (tau1 + tau2 m * x) of
             Inl e \<Rightarrow> Inl e
           | Inr y \<Rightarrow>
               Inr ((a * x - y) * force_length_relationship * force_velocity_relationship)))"

text \<open>\<^verbatim>\<open>system_dynamics\<close>; the column \<^verbatim>\<open>vertcat(cn_dot, f_dot)\<close> is the pair.\<close>

definition system_dynamics ::
  "ding_model \<Rightarrow> real \<Rightarrow> real \<Rightarrow> real \<Rightarrow> real list option \<Rightarrow> real option \<Rightarrow> real \<Rightarrow> real
     \<Rightarrow> error + (real \<times> real)" where
  "system_dynamics m cn f t t_stim_prev cn_sum force_length_relationship
       force_velocity_relationship =
     (case calculate_cn_dot m cn cn_sum t t_stim_prev 1 of
        Inl e \<Rightarrow> Inl e
      | Inr cn_dot \<Rightarrow>
          (case f_dot_fun m cn f (a_rest m) (tau1_rest m) (km_rest m)
                  force_length_relationship force_velocity_relationship of
             Inl e \<Rightarrow> Inl e
           | Inr f_dot \<Rightarrow> Inr (cn_dot, f_dot)))"

section \<open>The identification constraint builder (\<^verbatim>\<open>OcpFesId._build_constraints\<close>)\<close>

text \<open>
  \<^verbatim>\<open>
    time_vector = np.linspace(0, final_time, n_shooting + 1)
    stim_at_node = [np.where(stim_time[i] <= time_vector)[0][0] for i in range(len(stim_time))]
    additional_nodes = 1 if control_type == ControlType.LINEAR_CONTINUOUS else 0
    if model._sum_stim_truncation:
        max_stim_to_keep = model._sum_stim_truncation
    else:
        max_stim_to_keep = 10000000
    index_sup = 0
    index_inf = 0
    stim_index = []
    for i in range(n_shooting + additional_nodes):
        if i in stim_at_node:
            index_sup += 1
            if index_sup >= max_stim_to_keep:
                index_inf = index_sup - max_stim_to_keep
            stim_index = [i for i in range(index_inf, index_sup)]
        constraints.add(CustomConstraint.cn_sum_identification, node=i,
                        stim_time=stim_time[index_inf:index_sup], stim_index=stim_index)
    if isinstance(model, DingModelPulseWidthFrequency):
        index_sup = 0
        for i in range(n_shooting + additional_nodes):
            if i in stim_at_node and i != 0:
                index_sup += 1
            constraints.add(CustomConstraint.a_calculation_identification, node=i,
                            last_stim_index=index_sup)
    return constraints
  \<close>
  \<^verbatim>\<open>np.linspace\<close> is NumPy's: it returns \<open>n_shooting + 1\<close> floats, the node times from \<open>0\<close>
  to \<open>final_time\<close>, each rounded to a float. The model takes that array as the parameter
  \<open>time_vector\<close>, in the place of \<open>final_time\<close>, which the function uses for nothing else. A
  finite float is the rational it denotes, and \<^verbatim>\<open><=\<close> on floats compares these rationals,
  so the comparisons of the source are the comparisons of the model. The stimulation times
  and the node times are finite floats.
\<close>

datatype control_type = CONSTANT | CONSTANT_WITH_LAST_NODE | LINEAR_CONTINUOUS



text \<open>\<^verbatim>\<open>None\<close> and \<open>0\<close> are both false in the test \<^verbatim>\<open>if model._sum_stim_truncation\<close>.\<close>

definition max_stim_to_keep :: "ding_model \<Rightarrow> int" where
  "max_stim_to_keep m =
     (case sum_stim_truncation m of
        None \<Rightarrow> 10000000
      | Some k \<Rightarrow> if k = 0 then 10000000 else k)"

text \<open>\<^verbatim>\<open>range(a, b)\<close> as a list, and the slice \<^verbatim>\<open>xs[lo:hi]\<close> with Python's clamping.\<close>

definition py_range :: "int \<Rightarrow> int \<Rightarrow> int list" where
  "py_range a b = [a..b - 1]"

definition clamp_index :: "nat \<Rightarrow> int \<Rightarrow> nat" where
  "clamp_index n k = (if k < 0 then nat (max 0 (int n + k)) else min n (nat k))"

definition py_slice :: "'a list \<Rightarrow> int \<Rightarrow> int \<Rightarrow> 'a list" where
  "py_slice xs lo hi =
     (let a = clamp_index (length xs) lo; b = clamp_index (length xs) hi
      in take (b - a) (drop a xs))"

text \<open>
  A constraint added to the list: \<open>Cn_sum_identification node stim_time stim_index\<close> or
  \<open>A_calculation_identification node last_stim_index\<close>. The state of the first loop is its
  three variables and the list built so far.
\<close>

datatype constraint =
    Cn_sum_identification nat "rat list" "int list"
  | A_calculation_identification nat int

record loop_state =
  index_sup :: int
  index_inf :: int
  stim_index :: "int list"
  constraints :: "constraint list"

definition initial_state :: loop_state where
  "initial_state = \<lparr>index_sup = 0, index_inf = 0, stim_index = [], constraints = []\<rparr>"

definition cn_sum_step :: "ding_model \<Rightarrow> rat list \<Rightarrow> nat list \<Rightarrow> loop_state \<Rightarrow> nat \<Rightarrow> loop_state" where
  "cn_sum_step m stim_time stim_at_node st i =
     (let st1 =
        (if i \<in> set stim_at_node then
           (let sup = index_sup st + 1;
                inf = (if sup \<ge> max_stim_to_keep m then sup - max_stim_to_keep m
                       else index_inf st)
            in st\<lparr>index_sup := sup, index_inf := inf, stim_index := py_range inf sup\<rparr>)
         else st)
      in st1\<lparr>constraints := constraints st1 @
           [Cn_sum_identification i
              (py_slice stim_time (index_inf st1) (index_sup st1)) (stim_index st1)]\<rparr>)"

text \<open>The state after the first \<open>n\<close> iterations of the first loop.\<close>

definition constraint_loop :: "ding_model \<Rightarrow> rat list \<Rightarrow> nat list \<Rightarrow> nat \<Rightarrow> loop_state" where
  "constraint_loop m stim_time stim_at_node n =
     foldl (cn_sum_step m stim_time stim_at_node) initial_state [0..<n]"




section \<open>The scheduler: \<^verbatim>\<open>limit_denominator\<close> never raises\<close>

lemma div_ge_one: "0 < d \<Longrightarrow> d \<le> n \<Longrightarrow> 1 \<le> n div (d::int)"
  using pos_imp_zdiv_pos_iff [of d n] by linarith

text \<open>
  The loop invariant: \<open>q1 * n + q0 * d\<close> stays the denominator of the input (which exceeds
  the bound \<open>M\<close>), \<open>n\<close> and \<open>d\<close> stay coprime, and after the first iteration
  \<open>0 \<le> d < n\<close> and \<open>0 < q1 \<le> M\<close>. So \<open>d\<close> never reaches \<open>0\<close> before the loop breaks.
\<close>

lemma limit_denominator_loop_total:
  "0 \<le> d \<Longrightarrow> 0 \<le> q0 \<Longrightarrow> q0 \<le> M \<Longrightarrow> q1 \<le> M \<Longrightarrow> 1 \<le> M \<Longrightarrow> M < q1 * n + q0 * d \<Longrightarrow>
   gcd n d = 1 \<Longrightarrow> (q1 = 0 \<and> q0 = 1 \<and> 0 < d) \<or> (0 < q1 \<and> d < n) \<Longrightarrow>
   \<exists>p0' q0' p1' q1'. limit_denominator_loop M p0 q0 p1 q1 n d = Inr (p0', q0', p1', q1')
      \<and> 0 \<le> q0' \<and> q0' \<le> M \<and> 0 < q1' \<and> q1' \<le> M"
proof (induction M p0 q0 p1 q1 n d rule: limit_denominator_loop.induct)
  case (1 M p0 q0 p1 q1 n d)
  have dpos: "0 < d"
  proof (rule ccontr)
    assume "\<not> 0 < d"
    with "1.prems" have d0: "d = 0" by simp
    with "1.prems" have q1n: "0 < q1" "0 < n" by auto
    from "1.prems" d0 have "\<bar>n\<bar> = 1" by simp
    with q1n have "n = 1" by simp
    with "1.prems" d0 show False by simp
  qed
  define a where "a = n div d"
  define q2 where "q2 = q0 + a * q1"
  have fd: "floordiv n d = Inr a"
    using dpos by (simp add: floordiv_def a_def)
  have q2_pos: "0 < q2"
  proof (cases "q1 = 0")
    case True
    with "1.prems" show ?thesis by (auto simp: q2_def)
  next
    case False
    with "1.prems" have q1: "0 < q1" and dn: "d < n" by auto
    have "1 \<le> a" unfolding a_def using dpos dn
      by (intro div_ge_one) simp_all
    then have "0 < a * q1" using q1 by (intro mult_pos_pos) simp_all
    moreover have "0 \<le> q0" using "1.prems" by simp
    ultimately show ?thesis unfolding q2_def by linarith
  qed
  show ?case
  proof (cases "q2 > M")
    case True
    have "0 < q1"
    proof (rule ccontr)
      assume "\<not> 0 < q1"
      with "1.prems" have "q1 = 0" "q0 = 1" by auto
      then have "q2 = 1" by (simp add: q2_def)
      with True "1.prems" show False by simp
    qed
    moreover have "limit_denominator_loop M p0 q0 p1 q1 n d = Inr (p0, q0, p1, q1)"
      using fd True by (subst limit_denominator_loop.simps) (simp add: q2_def)
    ultimately show ?thesis using "1.prems" by simp
  next
    case False
    have md: "n - a * d = n mod d"
      by (simp add: a_def minus_div_mult_eq_mod)
    have inv: "q2 * d + q1 * (n - a * d) = q1 * n + q0 * d"
      by (simp add: q2_def algebra_simps)
    have g: "gcd d (n - a * d) = 1"
      using "1.prems" by (simp add: md gcd.commute gcd_red_int [symmetric])
    have step: "limit_denominator_loop M p0 q0 p1 q1 n d
        = limit_denominator_loop M p1 q1 (p0 + a * p1) q2 d (n - a * d)"
      using fd False by (subst limit_denominator_loop.simps) (simp add: q2_def)
    have "\<exists>p0' q0' p1' q1'.
        limit_denominator_loop M p1 q1 (p0 + a * p1) q2 d (n - a * d) = Inr (p0', q0', p1', q1')
        \<and> 0 \<le> q0' \<and> q0' \<le> M \<and> 0 < q1' \<and> q1' \<le> M"
    proof (rule "1.IH" [OF fd q2_def])
      show "\<not> M < q2" using False by simp
      show "0 \<le> n - a * d" using dpos by (simp add: md)
      show "0 \<le> q1" using "1.prems" by auto
      show "q1 \<le> M" using "1.prems" by simp
      show "q2 \<le> M" using False by simp
      show "1 \<le> M" using "1.prems" by simp
      show "M < q2 * d + q1 * (n - a * d)" using "1.prems" by (simp add: inv)
      show "gcd d (n - a * d) = 1" by (rule g)
      show "q2 = 0 \<and> q1 = 1 \<and> 0 < n - a * d \<or> 0 < q2 \<and> n - a * d < d"
        using q2_pos dpos by (simp add: md)
    qed
    then show ?thesis by (simp only: step)
  qed
qed

lemma limit_denominator_total: "\<exists>q. limit_denominator x = Inr q"
proof (cases "denominator x \<le> max_denominator")
  case True
  then show ?thesis by (simp add: limit_denominator_def)
next
  case False
  obtain n d where qo: "quotient_of x = (n, d)" by (cases "quotient_of x")
  have dpos: "0 < d" using quotient_of_denom_pos [OF qo] .
  have cop: "coprime n d" using quotient_of_coprime [OF qo] .
  have nd: "numerator x = n" "denominator x = d"
    by (simp_all add: numerator_def denominator_def qo)
  have big: "max_denominator < d" using False nd by simp
  have "\<exists>p0' q0' p1' q1'.
      limit_denominator_loop max_denominator 0 1 1 0 n d = Inr (p0', q0', p1', q1')
      \<and> 0 \<le> q0' \<and> q0' \<le> max_denominator \<and> 0 < q1' \<and> q1' \<le> max_denominator"
    using dpos cop big
    by (intro limit_denominator_loop_total) (simp_all add: max_denominator_def)
  then obtain p0' q0' p1' q1' where
    loop: "limit_denominator_loop max_denominator 0 1 1 0 n d = Inr (p0', q0', p1', q1')"
    and q: "0 \<le> q0'" "q0' \<le> max_denominator" "0 < q1'" "q1' \<le> max_denominator"
    by blast
  define k where "k = (max_denominator - q0') div q1'"
  have k: "floordiv (max_denominator - q0') q1' = Inr k"
    using q by (simp add: floordiv_def k_def)
  have k0: "0 \<le> k" unfolding k_def using q by (simp add: pos_imp_zdiv_nonneg_iff)
  have "0 < q0' + k * q1'"
  proof (cases "q0' = 0")
    case True
    then have "1 \<le> k" unfolding k_def using q by (intro div_ge_one) simp_all
    then have "0 < k * q1'" using q by (intro mult_pos_pos) simp_all
    with True show ?thesis by simp
  next
    case False
    then have "0 < q0'" using q by simp
    moreover have "0 \<le> k * q1'" using k0 q by (intro mult_nonneg_nonneg) simp_all
    ultimately show ?thesis by linarith
  qed
  then have f1: "Fraction (p0' + k * p1') (q0' + k * q1') = Inr (Fract (p0' + k * p1') (q0' + k * q1'))"
    by (simp add: Fraction_def)
  have f2: "Fraction p1' q1' = Inr (Fract p1' q1')"
    using q by (simp add: Fraction_def)
  show ?thesis
    using False by (simp add: limit_denominator_def nd loop k f1 f2)
qed

lemma limit_denominator_as_fraction: "limit_denominator x = Inr (as_fraction x)"
  using limit_denominator_total [of x] by (auto simp: as_fraction_def)

lemma to_fraction_Finite: "to_fraction (Finite x) = Inr (as_fraction x)"
  by (simp add: to_fraction_def limit_denominator_as_fraction)

section \<open>The scheduler: the node count is a least common multiple\<close>

lemma denominator_pos: "0 < denominator x"
  unfolding denominator_def by (cases "quotient_of x") (simp add: quotient_of_denom_pos)

lemma lcm_step: "0 < n \<Longrightarrow> 0 < d \<Longrightarrow> n * d div gcd n d = lcm n (d::int)"
proof -
  assume n: "0 < n" and d: "0 < d"
  have "gcd n d * lcm n d = n * d"
    using prod_gcd_lcm_int [of n d] n d by simp
  moreover have "gcd n d \<noteq> 0" using n by simp
  ultimately show ?thesis by (metis nonzero_mult_div_cancel_left)
qed

lemma n_shooting_loop_fold:
  "T \<noteq> 0 \<Longrightarrow> 0 < n \<Longrightarrow>
   n_shooting_loop T (map Finite ts) n
     = Inr (fold (\<lambda>t acc. acc * required_denominator T t div gcd acc (required_denominator T t)) ts n)
   \<and> fold (\<lambda>t acc. acc * required_denominator T t div gcd acc (required_denominator T t)) ts n
     = fold lcm (map (required_denominator T) ts) n
   \<and> 0 < fold lcm (map (required_denominator T) ts) n"
proof (induction ts arbitrary: n)
  case Nil
  then show ?case by simp
next
  case (Cons t ts)
  let ?d = "required_denominator T t"
  have d: "0 < ?d" by (simp add: required_denominator_def denominator_pos)
  have l: "n * ?d div gcd n ?d = lcm n ?d" using Cons.prems d by (intro lcm_step)
  have lpos: "0 < lcm n ?d" using Cons.prems d by (simp add: lcm_pos_int)
  have g: "gcd n ?d \<noteq> 0" using d by simp
  have step: "n_shooting_loop T (Finite t # map Finite ts) n
      = n_shooting_loop T (map Finite ts) (lcm n ?d)"
    using Cons.prems g l
    by (simp add: to_fraction_Finite fraction_div_def floordiv_def
        required_denominator_def [symmetric] Let_def)
  from Cons.IH [OF Cons.prems(1) lpos] show ?case
    by (simp only: step fold_simps list.map o_apply l lcm.commute [of ?d n])
qed

text \<open>
  C1, as stated, fails for a positive horizon so small that its conversion is the
  fraction \<open>0\<close>: the float \<open>2 ^ -22\<close> (about \<open>2.4e-7\<close>) is converted to \<open>0\<close>, and the
  division by the converted horizon raises \<^verbatim>\<open>ZeroDivisionError\<close> at the first
  stimulation time. The conversion is not the exact value either: the stimulation time
  \<open>2 ^ -30\<close> over the horizon \<open>1\<close> is the fraction \<open>1 / 2 ^ 30\<close>, and the node count
  returned is \<open>1\<close>.
\<close>

theorem prepare_n_shooting_small_horizon_counterexample:
  "(0::rat) < Fract 1 4194304
   \<and> prepare_n_shooting [Finite 0] (Finite (Fract 1 4194304)) = Inl ZeroDivisionError
   \<and> denominator (Fract 1 1073741824 / 1) = 1073741824
   \<and> prepare_n_shooting [Finite (Fract 1 1073741824)] (Finite 1) = Inr 1"
  by code_simp

text \<open>
  C1 (amended): for every list of finite stimulation times and every finite horizon whose
  conversion \<^verbatim>\<open>Fraction(final_time).limit_denominator()\<close> is not zero, \<open>prepare_n_shooting\<close>
  returns the least common multiple of the reduced denominators \<open>d_i\<close> of the fractions
  \<open>stim_time[i] / final_time\<close> (both converted first), which it computes by folding
  \<open>acc * d_i // gcd(acc, d_i)\<close> from \<open>1\<close>; for the empty list it returns \<open>1\<close>, whatever the
  finite horizon, zero conversion included.
\<close>

theorem prepare_n_shooting_lcm:
  "(as_fraction final_time \<noteq> 0 \<longrightarrow>
      prepare_n_shooting (map Finite stim_time) (Finite final_time)
        = Inr (Lcm (required_denominator (as_fraction final_time) ` set stim_time))
      \<and> prepare_n_shooting (map Finite stim_time) (Finite final_time)
        = Inr (fold (\<lambda>t acc. acc * required_denominator (as_fraction final_time) t
                                div gcd acc (required_denominator (as_fraction final_time) t))
                 stim_time 1))
   \<and> prepare_n_shooting [] (Finite final_time) = Inr 1"
proof (intro conjI impI)
  let ?T = "as_fraction final_time"
  have p: "prepare_n_shooting xs (Finite final_time) = n_shooting_loop ?T xs 1" for xs
    by (simp add: prepare_n_shooting_def to_fraction_Finite)
  show "prepare_n_shooting [] (Finite final_time) = Inr 1"
    by (simp add: p)
  assume T: "?T \<noteq> 0"
  have "Lcm (required_denominator ?T ` set stim_time)
      = fold lcm (map (required_denominator ?T) stim_time) 1"
    using Lcm_set_eq_fold [of "map (required_denominator ?T) stim_time"] by simp
  with n_shooting_loop_fold [OF T, of 1 stim_time]
  show "prepare_n_shooting (map Finite stim_time) (Finite final_time)
        = Inr (Lcm (required_denominator ?T ` set stim_time))"
    and "prepare_n_shooting (map Finite stim_time) (Finite final_time)
        = Inr (fold (\<lambda>t acc. acc * required_denominator ?T t
                                div gcd acc (required_denominator ?T t)) stim_time 1)"
    by (simp_all add: p)
qed

theorem prepare_n_shooting_lcm_witness:
  "as_fraction (1 / 2) \<noteq> 0
   \<and> prepare_n_shooting [Finite (1 / 8), Finite (1 / 3)] (Finite (1 / 2)) = Inr 12
   \<and> as_fraction (Fract 1 4194304) = 0
   \<and> prepare_n_shooting [] (Finite (Fract 1 4194304)) = Inr 1"
proof -
  have a: "as_fraction (1 / 2) \<noteq> 0" by code_simp
  have z: "as_fraction (Fract 1 4194304) = 0" by code_simp
  have b: "fold (\<lambda>t acc. acc * required_denominator (as_fraction (1 / 2)) t
                               div gcd acc (required_denominator (as_fraction (1 / 2)) t))
                [1 / 8, 1 / 3] 1 = 12" by code_simp
  from prepare_n_shooting_lcm [of "1 / 2" "[1 / 8, 1 / 3]"] a
  have "prepare_n_shooting (map Finite [1 / 8, 1 / 3]) (Finite (1 / 2))
      = Inr (fold (\<lambda>t acc. acc * required_denominator (as_fraction (1 / 2)) t
                               div gcd acc (required_denominator (as_fraction (1 / 2)) t))
                [1 / 8, 1 / 3] 1)"
    by blast
  then have c: "prepare_n_shooting [Finite (1 / 8), Finite (1 / 3)] (Finite (1 / 2)) = Inr 12"
    unfolding b by simp
  from prepare_n_shooting_lcm [of "Fract 1 4194304" "[]"]
  have e: "prepare_n_shooting [] (Finite (Fract 1 4194304)) = Inr 1"
    by blast
  from a c z e show ?thesis by (intro conjI)
qed

text \<open>
  C5: the floats nearest to \<open>1/3\<close> and \<open>2/3\<close> are \<open>6004799503160661 / 2 ^ 54\<close> and
  \<open>6004799503160661 / 2 ^ 53\<close>. With the horizon \<open>1.0\<close>, the stimulation list
  \<open>[0.0, 1/3, 2/3]\<close> gives exactly \<open>3\<close> nodes.
\<close>

theorem prepare_n_shooting_thirds:
  "prepare_n_shooting
     [Finite 0, Finite (Fract 6004799503160661 18014398509481984),
      Finite (Fract 6004799503160661 9007199254740992)] (Finite 1)
   = Inr 3"
  by code_simp

text \<open>
  C6, as stated, fails: a negative time, and a finite time beyond the horizon, are
  scheduled like any other time; nothing is raised.
\<close>

theorem prepare_n_shooting_out_of_range_counterexample:
  "(- 1 / 2 :: rat) < 0 \<and> prepare_n_shooting [Finite (- 1 / 2)] (Finite 1) = Inr 2
   \<and> (1 :: rat) < 3 / 2 \<and> prepare_n_shooting [Finite (3 / 2)] (Finite 1) = Inr 2"
  by code_simp

text \<open>
  C6 (amended): \<open>prepare_n_shooting\<close> compares no stimulation time with \<open>0\<close> or with the
  horizon. For every list of finite stimulation times, inside \<open>[0, horizon]\<close> or not, and
  every finite horizon whose conversion is not zero, it raises nothing and returns a
  positive node count.
\<close>

theorem prepare_n_shooting_no_range_check:
  "as_fraction final_time \<noteq> 0 \<Longrightarrow>
   \<exists>n. prepare_n_shooting (map Finite stim_time) (Finite final_time) = Inr n \<and> 0 < n"
proof -
  assume T: "as_fraction final_time \<noteq> 0"
  from n_shooting_loop_fold [OF T, of 1 stim_time] show ?thesis
    by (simp add: prepare_n_shooting_def to_fraction_Finite)
qed

theorem prepare_n_shooting_no_range_check_witness:
  "as_fraction 1 \<noteq> 0 \<and> (- 1 / 2 :: rat) < 0 \<and> (1 :: rat) < 3 / 2
   \<and> (\<exists>n. prepare_n_shooting (map Finite [- 1 / 2, 3 / 2]) (Finite 1) = Inr n \<and> 0 < n)"
proof -
  have a: "as_fraction 1 \<noteq> 0" by code_simp
  from prepare_n_shooting_no_range_check [OF a, of "[- 1 / 2, 3 / 2]"] a show ?thesis
    by simp
qed

section \<open>The dynamics: indexing and the forcing sum\<close>

lemma getitem_nth: "i < length xs \<Longrightarrow> getitem xs (int i) = Inr (xs ! i)"
  by (simp add: getitem_def)

lemma getitem_zero: "0 < length xs \<Longrightarrow> getitem xs 0 = Inr (xs ! 0)"
  using getitem_nth [of 0 xs] by simp

lemma getitem_minus_one: "xs \<noteq> [] \<Longrightarrow> getitem xs (- 1) = Inr (last xs)"
proof -
  assume ne: "xs \<noteq> []"
  then obtain n where n: "length xs = Suc n" by (cases xs) auto
  have "nat (int (length xs) + (- 1)) = n" by (simp add: n)
  moreover have "last xs = xs ! n" using ne n by (simp add: last_conv_nth)
  moreover have "- int (length xs) \<le> - 1" by (simp add: n)
  ultimately show ?thesis unfolding getitem_def by simp
qed

lemma getitem_pred:
  "0 < i \<Longrightarrow> i < length xs \<Longrightarrow> getitem xs (int i - 1) = Inr (xs ! (i - 1))"
proof -
  assume i: "0 < i" "i < length xs"
  then have "int i - 1 = int (i - 1)" by simp
  moreover have "i - 1 < length xs" using i by simp
  ultimately show ?thesis by (simp only: getitem_nth)
qed

lemma cn_sum_term_value:
  "tauc m \<noteq> 0 \<Longrightarrow> i < length lambda_i \<Longrightarrow>
   cn_sum_term m r0 t t_stim_i gap lambda_i i
     = Inr ((if i = 0 then 1 else 1 + (r0 - 1) * exp (- gap / tauc m))
            * exp (- (t - t_stim_i) / tauc m) * lambda_i ! i
            * (if is_approximated m then 1 else if t_stim_i \<le> t then 1 else 0))"
  by (cases "i = 0")
    (simp_all add: cn_sum_term_def ri_fun_def exp_time_fun_def truediv_def getitem_nth
      getitem_zero)

lemma cn_sum_body_value:
  "tauc m \<noteq> 0 \<Longrightarrow> i < length t_stim_prev \<Longrightarrow> i < length lambda_i \<Longrightarrow>
   cn_sum_body m r0 t t_stim_prev lambda_i i s
     = Inr (s + (if i = 0 then 1
                 else 1 + (r0 - 1) * exp (- (t_stim_prev ! i - t_stim_prev ! (i - 1)) / tauc m))
            * exp (- (t - t_stim_prev ! i) / tauc m) * lambda_i ! i
            * (if is_approximated m then 1 else if t_stim_prev ! i \<le> t then 1 else 0))"
proof (cases "i = 0")
  case True
  assume "tauc m \<noteq> 0" "i < length t_stim_prev" "i < length lambda_i"
  with True show ?thesis
    by (simp add: cn_sum_body_def getitem_zero getitem_minus_one cn_sum_term_value)
next
  case False
  assume "tauc m \<noteq> 0" "i < length t_stim_prev" "i < length lambda_i"
  with False show ?thesis
    by (simp add: cn_sum_body_def getitem_nth getitem_pred cn_sum_term_value)
qed

lemma cn_sum_loop_value:
  "tauc m \<noteq> 0 \<Longrightarrow> \<forall>i \<in> set idx. i < length t_stim_prev \<and> i < length lambda_i \<Longrightarrow>
   cn_sum_loop m r0 t t_stim_prev lambda_i idx s
     = Inr (s + (\<Sum>i\<leftarrow>idx. (if i = 0 then 1
                 else 1 + (r0 - 1) * exp (- (t_stim_prev ! i - t_stim_prev ! (i - 1)) / tauc m))
            * exp (- (t - t_stim_prev ! i) / tauc m) * lambda_i ! i
            * (if is_approximated m then 1 else if t_stim_prev ! i \<le> t then 1 else 0)))"
proof (induction idx arbitrary: s)
  case Nil
  then show ?case by simp
next
  case (Cons i idx)
  then show ?case
    by (simp add: cn_sum_body_value add.assoc)
qed

lemma cn_sum_fun_value:
  "tauc m \<noteq> 0 \<Longrightarrow> length t_stim_prev \<le> length lambda_i \<Longrightarrow>
     cn_sum_fun m r0 t t_stim_prev lambda_i
       = Inr (\<Sum>i<length t_stim_prev.
                (if i = 0 then 1
                 else 1 + (r0 - 1) * exp (- (t_stim_prev ! i - t_stim_prev ! (i - 1)) / tauc m))
                * exp (- (t - t_stim_prev ! i) / tauc m) * lambda_i ! i
                * (if is_approximated m then 1 else if t_stim_prev ! i \<le> t then 1 else 0))
   \<and> get_r0 m km = km + r0_km_relationship m
   \<and> get_lambda_i nb_stim pulse_intensity = replicate nb_stim 1"
proof -
  assume tc: "tauc m \<noteq> 0" and len: "length t_stim_prev \<le> length lambda_i"
  have "\<forall>i \<in> set [0..<length t_stim_prev]. i < length t_stim_prev \<and> i < length lambda_i"
    using len by auto
  from cn_sum_loop_value [OF tc this, of r0 t 0]
  have "cn_sum_fun m r0 t t_stim_prev lambda_i
       = Inr (\<Sum>i<length t_stim_prev.
                (if i = 0 then 1
                 else 1 + (r0 - 1) * exp (- (t_stim_prev ! i - t_stim_prev ! (i - 1)) / tauc m))
                * exp (- (t - t_stim_prev ! i) / tauc m) * lambda_i ! i
                * (if is_approximated m then 1 else if t_stim_prev ! i \<le> t then 1 else 0))"
    by (simp add: cn_sum_fun_def interv_sum_list_conv_sum_set_nat atLeast0LessThan)
  moreover have "get_lambda_i nb_stim pulse_intensity = replicate nb_stim 1"
    by (simp add: get_lambda_i_def map_replicate_const)
  ultimately show ?thesis by (simp add: get_r0_def)
qed

lemma default_fields:
  "tauc (DingModelFrequency k b) = 1 / 50"
  "is_approximated (DingModelFrequency k b) = b"
  "km_rest (DingModelFrequency k b) = 103 / 1000"
  "r0_km_relationship (DingModelFrequency k b) = 26 / 25"
  "a_rest (DingModelFrequency k b) = 3009"
  "tau1_rest (DingModelFrequency k b) = 50957 / 1000000"
  "tau2 (DingModelFrequency k b) = 3 / 50"
  "sum_stim_truncation (DingModelFrequency k b) = k"
  by (simp_all add: DingModelFrequency_def)

text \<open>
  C3: for every stimulation list (non-empty or not, with a multiplier for each event),
  \<open>cn_sum_fun\<close> returns the sum over the events \<open>i\<close> of
  \<open>R_i * exp (- (t - t_i) / tauc) * \<lambda>_i * 1[t_i \<le> t]\<close>, where \<open>R_0 = 1\<close> and
  \<open>R_i = 1 + (R0 - 1) * exp (- (t_i - t_(i-1)) / tauc)\<close> for the later events; the
  indicator is the constant \<open>1\<close> in approximated mode. \<open>R0\<close> is
  \<open>Km + r0_km_relationship\<close>, and the multipliers \<open>\<lambda>_i\<close> of the frequency model are all \<open>1\<close>.
\<close>

theorem cn_sum_fun_formula:
  "tauc m \<noteq> 0 \<Longrightarrow> length t_stim_prev \<le> length lambda_i \<Longrightarrow>
     cn_sum_fun m r0 t t_stim_prev lambda_i
       = Inr (\<Sum>i<length t_stim_prev.
                (if i = 0 then 1
                 else 1 + (r0 - 1) * exp (- (t_stim_prev ! i - t_stim_prev ! (i - 1)) / tauc m))
                * exp (- (t - t_stim_prev ! i) / tauc m) * lambda_i ! i
                * (if is_approximated m then 1 else if t_stim_prev ! i \<le> t then 1 else 0))
   \<and> get_r0 m km = km + r0_km_relationship m
   \<and> get_lambda_i nb_stim pulse_intensity = replicate nb_stim 1"
  by (rule cn_sum_fun_value)

theorem cn_sum_fun_formula_witness:
  "tauc (DingModelFrequency None False) \<noteq> 0 \<and> length [0, 1 / 10 :: real] \<le> length [1, 1 :: real]
   \<and> cn_sum_fun (DingModelFrequency None False) 2 (1 / 10) [0, 1 / 10] [1, 1]
       = Inr (exp (- 5) + (1 + exp (- 5)))"
proof -
  have a: "tauc (DingModelFrequency None False) \<noteq> 0" by (simp add: default_fields)
  have b: "length [0, 1 / 10 :: real] \<le> length [1, 1 :: real]" by simp
  have "{..<2::nat} = {0, 1}" by auto
  then have s: "(\<Sum>i<2::nat. g i) = g 0 + g 1" for g :: "nat \<Rightarrow> real" by simp
  from cn_sum_fun_formula [OF a b, of 2 "1 / 10"]
  have "cn_sum_fun (DingModelFrequency None False) 2 (1 / 10) [0, 1 / 10] [1, 1]
       = Inr (exp (- 5) + (1 + exp (- 5)))"
    by (simp add: default_fields s)
  with a b show ?thesis by blast
qed

section \<open>The dynamics: the two evaluation modes\<close>

lemma cn_sum_fun_total:
  "tauc m \<noteq> 0 \<Longrightarrow>
   \<exists>s. cn_sum_fun m r0 t t_stim_prev (get_lambda_i (length t_stim_prev) p) = Inr s"
proof -
  assume tc: "tauc m \<noteq> 0"
  have "length t_stim_prev \<le> length (get_lambda_i (length t_stim_prev) p)"
    by (simp add: get_lambda_i_def)
  from cn_sum_fun_value [OF tc this] show ?thesis by blast
qed

lemma cn_dot_fun_value:
  "tauc m \<noteq> 0 \<Longrightarrow> cn_dot_fun m cn (Some s) = Inr (s / tauc m - cn / tauc m)"
  by (simp add: cn_dot_fun_def truediv_def)

text \<open>
  C2: take an exact-mode model with a non-zero \<open>tauc\<close>, and its approximated twin (the same
  constants, \<open>is_approximated\<close> set). The exact-mode summation \<open>cn_sum_fun\<close> returns some
  \<open>s\<close>; the approximated \<open>Cn\<close> derivative with the control \<open>cn_sum = s\<close> is the exact-mode
  derivative, and both are \<open>s / tauc - Cn / tauc\<close>, for every \<open>Cn\<close>, time and stimulation
  history.
\<close>

theorem calculate_cn_dot_modes_agree:
  "tauc m \<noteq> 0 \<Longrightarrow> \<not> is_approximated m \<Longrightarrow>
   \<exists>s. cn_sum_fun m (get_r0 m (km_rest m)) t t_stim_prev
          (get_lambda_i (length t_stim_prev) 1) = Inr s
      \<and> calculate_cn_dot (m\<lparr>is_approximated := True\<rparr>) cn (Some s) t unused_stims 1
          = calculate_cn_dot m cn unused_cn_sum t (Some t_stim_prev) 1
      \<and> calculate_cn_dot m cn unused_cn_sum t (Some t_stim_prev) 1
          = Inr (s / tauc m - cn / tauc m)"
proof -
  assume tc: "tauc m \<noteq> 0" and ex: "\<not> is_approximated m"
  from cn_sum_fun_total [OF tc] obtain s where
    s: "cn_sum_fun m (get_r0 m (km_rest m)) t t_stim_prev
          (get_lambda_i (length t_stim_prev) 1) = Inr s"
    by blast
  have "calculate_cn_dot m cn unused_cn_sum t (Some t_stim_prev) 1
      = Inr (s / tauc m - cn / tauc m)"
    using ex tc s by (simp add: calculate_cn_dot_def cn_dot_fun_value)
  moreover have "calculate_cn_dot (m\<lparr>is_approximated := True\<rparr>) cn (Some s) t unused_stims 1
      = Inr (s / tauc m - cn / tauc m)"
    using tc by (simp add: calculate_cn_dot_def cn_dot_fun_def truediv_def)
  ultimately show ?thesis using s by simp
qed

theorem calculate_cn_dot_modes_agree_witness:
  "tauc (DingModelFrequency None False) \<noteq> 0 \<and> \<not> is_approximated (DingModelFrequency None False)
   \<and> cn_sum_fun (DingModelFrequency None False)
        (get_r0 (DingModelFrequency None False) (km_rest (DingModelFrequency None False)))
        0 [0] (get_lambda_i (length [0 :: real]) 1) = Inr 1
   \<and> calculate_cn_dot ((DingModelFrequency None False)\<lparr>is_approximated := True\<rparr>) 3 (Some 1) 0 None 1
       = calculate_cn_dot (DingModelFrequency None False) 3 None 0 (Some [0]) 1
   \<and> calculate_cn_dot (DingModelFrequency None False) 3 None 0 (Some [0]) 1 = Inr (- 100)"
proof -
  let ?m = "DingModelFrequency None False"
  have a: "tauc ?m \<noteq> 0" by (simp add: default_fields)
  have b: "\<not> is_approximated ?m" by (simp add: default_fields)
  have v: "cn_sum_fun ?m (get_r0 ?m (km_rest ?m)) 0 [0] (get_lambda_i (length [0 :: real]) 1) = Inr 1"
    by (simp add: cn_sum_fun_def cn_sum_body_def cn_sum_term_def exp_time_fun_def truediv_def
        getitem_def get_lambda_i_def default_fields)
  from calculate_cn_dot_modes_agree [OF a b, where t = 0 and t_stim_prev = "[0]" and cn = 3
      and unused_stims = None and unused_cn_sum = None]
  obtain s where
    s: "cn_sum_fun ?m (get_r0 ?m (km_rest ?m)) 0 [0] (get_lambda_i (length [0 :: real]) 1) = Inr s"
    and e: "calculate_cn_dot (?m\<lparr>is_approximated := True\<rparr>) 3 (Some s) 0 None 1
       = calculate_cn_dot ?m 3 None 0 (Some [0]) 1"
    and f: "calculate_cn_dot ?m 3 None 0 (Some [0]) 1 = Inr (s / tauc ?m - 3 / tauc ?m)"
    by blast
  from s v have "s = 1" by simp
  with e f a b v show ?thesis by (simp add: default_fields)
qed

text \<open>
  C10: for the empty stimulation history \<open>cn_sum_fun\<close> returns \<open>0\<close> and raises nothing, so
  the exact-mode derivative is the decay \<open>- Cn / tauc\<close>. For a non-empty history the first
  iteration reads the last element of the list to compute its gap, and the value of that
  gap plays no part: the term of the first event is the same for every gap.
\<close>

theorem cn_sum_fun_empty_history:
  "cn_sum_fun m r0 t [] lambda_i = Inr 0
   \<and> (tauc m \<noteq> 0 \<longrightarrow> \<not> is_approximated m \<longrightarrow>
        calculate_cn_dot m cn cn_sum t (Some []) pulse_intensity = Inr (- cn / tauc m))
   \<and> cn_sum_term m r0 t t_stim_i gap lambda_i 0 = cn_sum_term m r0 t t_stim_i gap' lambda_i 0
   \<and> cn_sum_body m r0 t (x # xs) lambda_i 0 s
        = (case cn_sum_term m r0 t x gap lambda_i 0 of Inl e \<Rightarrow> Inl e | Inr v \<Rightarrow> Inr (s + v))"
proof (intro conjI impI)
  show e: "cn_sum_fun m r t [] lam = Inr 0" for r lam
    by (simp add: cn_sum_fun_def)
  show "calculate_cn_dot m cn cn_sum t (Some []) pulse_intensity = Inr (- cn / tauc m)"
    if "tauc m \<noteq> 0" "\<not> is_approximated m"
    using that by (simp add: calculate_cn_dot_def e cn_dot_fun_value)
  show g: "cn_sum_term m r0 t u g1 lambda_i 0 = cn_sum_term m r0 t u g2 lambda_i 0"
    for u g1 g2
    by (simp add: cn_sum_term_def)
  have "cn_sum_body m r0 t (x # xs) lambda_i 0 s
        = (case cn_sum_term m r0 t x (x - last (x # xs)) lambda_i 0 of
             Inl e \<Rightarrow> Inl e | Inr v \<Rightarrow> Inr (s + v))"
    using getitem_minus_one [of "x # xs"] getitem_zero [of "x # xs"]
    by (simp add: cn_sum_body_def)
  then show "cn_sum_body m r0 t (x # xs) lambda_i 0 s
        = (case cn_sum_term m r0 t x gap lambda_i 0 of Inl e \<Rightarrow> Inl e | Inr v \<Rightarrow> Inr (s + v))"
    by (simp only: g [of x "x - last (x # xs)" gap])
qed

theorem cn_sum_fun_empty_history_witness:
  "tauc (DingModelFrequency None False) \<noteq> 0 \<and> \<not> is_approximated (DingModelFrequency None False)
   \<and> calculate_cn_dot (DingModelFrequency None False) 1 None 0 (Some []) 1 = Inr (- 50)"
proof -
  let ?m = "DingModelFrequency None False"
  have a: "tauc ?m \<noteq> 0" by (simp add: default_fields)
  have b: "\<not> is_approximated ?m" by (simp add: default_fields)
  from cn_sum_fun_empty_history [where m = ?m and cn = 1 and cn_sum = None and t = 0
      and pulse_intensity = 1] a b
  have "calculate_cn_dot ?m 1 None 0 (Some []) 1 = Inr (- 1 / tauc ?m)" by blast
  with a b show ?thesis by (simp add: default_fields)
qed

section \<open>The dynamics: the force derivative and the whole system\<close>

lemma f_dot_fun_value:
  "km + cn \<noteq> 0 \<Longrightarrow> tau1 + tau2 m * (cn / (km + cn)) \<noteq> 0 \<Longrightarrow>
   f_dot_fun m cn f a tau1 km fl fv
     = Inr ((a * (cn / (km + cn)) - f / (tau1 + tau2 m * (cn / (km + cn)))) * fl * fv)"
  by (simp add: f_dot_fun_def truediv_def)

text \<open>
  C4: where its two divisors are not zero, \<open>f_dot_fun\<close> returns
  \<open>(A * (Cn / (Km + Cn)) - F / (Tau1 + Tau2 * (Cn / (Km + Cn))))\<close> times the two modifiers,
  with \<open>Tau2\<close> the constant of the model; \<open>system_dynamics\<close> returns, beside the \<open>Cn\<close>
  derivative, that value at the rest constants \<open>a_rest\<close>, \<open>tau1_rest\<close>, \<open>km_rest\<close>.
\<close>

theorem f_dot_fun_formula:
  "(km + cn \<noteq> 0 \<longrightarrow> tau1 + tau2 m * (cn / (km + cn)) \<noteq> 0 \<longrightarrow>
      f_dot_fun m cn f a tau1 km force_length_mod force_velocity_mod
        = Inr ((a * (cn / (km + cn)) - f / (tau1 + tau2 m * (cn / (km + cn))))
               * force_length_mod * force_velocity_mod))
   \<and> (calculate_cn_dot m cn cn_sum t t_stim_prev 1 = Inr cn_dot \<longrightarrow>
      km_rest m + cn \<noteq> 0 \<longrightarrow> tau1_rest m + tau2 m * (cn / (km_rest m + cn)) \<noteq> 0 \<longrightarrow>
      system_dynamics m cn f t t_stim_prev cn_sum force_length_mod force_velocity_mod
        = Inr (cn_dot,
               (a_rest m * (cn / (km_rest m + cn))
                  - f / (tau1_rest m + tau2 m * (cn / (km_rest m + cn))))
               * force_length_mod * force_velocity_mod))"
  by (simp add: f_dot_fun_value system_dynamics_def)

theorem f_dot_fun_formula_witness:
  "(1 :: real) + 1 \<noteq> 0 \<and> (1 :: real) + tau2 (DingModelFrequency None True) * (1 / (1 + 1)) \<noteq> 0
   \<and> f_dot_fun (DingModelFrequency None True) 1 103 2 1 1 1 1 = Inr (- 99)
   \<and> calculate_cn_dot (DingModelFrequency None True) 0 (Some 0) 0 None 1 = Inr 0
   \<and> km_rest (DingModelFrequency None True) + 0 \<noteq> 0
   \<and> tau1_rest (DingModelFrequency None True)
        + tau2 (DingModelFrequency None True) * (0 / (km_rest (DingModelFrequency None True) + 0)) \<noteq> 0
   \<and> system_dynamics (DingModelFrequency None True) 0 50957 0 None (Some 0) 1 1
       = Inr (0, - 1000000)"
proof -
  let ?m = "DingModelFrequency None True"
  have a: "(1 :: real) + 1 \<noteq> 0" by simp
  have b: "(1 :: real) + tau2 ?m * (1 / (1 + 1)) \<noteq> 0" by (simp add: default_fields)
  have c: "calculate_cn_dot ?m 0 (Some 0) 0 None 1 = Inr 0"
    by (simp add: calculate_cn_dot_def cn_dot_fun_def truediv_def default_fields)
  have d: "km_rest ?m + 0 \<noteq> 0" by (simp add: default_fields)
  have e: "tau1_rest ?m + tau2 ?m * (0 / (km_rest ?m + 0)) \<noteq> 0" by (simp add: default_fields)
  have "f_dot_fun ?m 1 103 2 1 1 1 1 = Inr (- 99)"
    using f_dot_fun_formula [of 1 1 1 ?m 103 2 1 1] a b
    by (simp add: default_fields)
  moreover have "system_dynamics ?m 0 50957 0 None (Some 0) 1 1 = Inr (0, - 1000000)"
    using f_dot_fun_formula [where m = ?m and cn = 0 and f = 50957 and cn_sum = "Some 0"
        and t = 0 and t_stim_prev = None and cn_dot = 0 and force_length_mod = 1
        and force_velocity_mod = 1] c d e
    by (simp add: default_fields)
  ultimately show ?thesis using a b c d e by blast
qed





section \<open>The constraint builder: nodes, events and the loop invariant\<close>







lemma constraint_loop_0: "constraint_loop m stim san 0 = initial_state"
  by (simp add: constraint_loop_def)

lemma constraint_loop_Suc:
  "constraint_loop m stim san (Suc j) = cn_sum_step m stim san (constraint_loop m stim san j) j"
  by (simp add: constraint_loop_def)

lemma cn_sum_step_index_sup:
  "index_sup (cn_sum_step m stim san st j)
     = (if j \<in> set san then index_sup st + 1 else index_sup st)"
  by (simp add: cn_sum_step_def Let_def)

lemma cn_sum_step_index_inf:
  "index_inf (cn_sum_step m stim san st j)
     = (if j \<in> set san \<and> max_stim_to_keep m \<le> index_sup st + 1
        then index_sup st + 1 - max_stim_to_keep m else index_inf st)"
  by (simp add: cn_sum_step_def Let_def)

lemma cn_sum_step_stim_index:
  "stim_index (cn_sum_step m stim san st j)
     = (if j \<in> set san
        then py_range (index_inf (cn_sum_step m stim san st j))
               (index_sup (cn_sum_step m stim san st j))
        else stim_index st)"
  by (simp add: cn_sum_step_def Let_def)

lemma cn_sum_step_constraints:
  "constraints (cn_sum_step m stim san st j)
     = constraints st @
       [Cn_sum_identification j
          (py_slice stim (index_inf (cn_sum_step m stim san st j))
             (index_sup (cn_sum_step m stim san st j)))
          (stim_index (cn_sum_step m stim san st j))]"
  by (simp add: cn_sum_step_def Let_def)

lemma index_sup_mono_step:
  "index_sup (constraint_loop m stim san j) \<le> index_sup (constraint_loop m stim san (Suc j))"
  by (simp add: constraint_loop_Suc cn_sum_step_index_sup)

lemma index_sup_mono:
  "i \<le> j \<Longrightarrow> index_sup (constraint_loop m stim san i) \<le> index_sup (constraint_loop m stim san j)"
proof (induction j)
  case 0
  then show ?case by simp
next
  case (Suc j)
  show ?case
  proof (cases "i = Suc j")
    case True
    then show ?thesis by simp
  next
    case False
    with Suc.prems have "i \<le> j" by simp
    from Suc.IH [OF this] index_sup_mono_step [of m stim san j] show ?thesis by simp
  qed
qed

lemma card_nodes_Suc:
  "card (set san \<inter> {..<Suc j})
     = (if j \<in> set san then card (set san \<inter> {..<j}) + 1 else card (set san \<inter> {..<j}))"
proof (cases "j \<in> set san")
  case True
  then have e: "set san \<inter> {..<Suc j} = insert j (set san \<inter> {..<j})" by auto
  have "card (insert j (set san \<inter> {..<j})) = Suc (card (set san \<inter> {..<j}))"
    by (rule card_insert_disjoint) simp_all
  then have "card (set san \<inter> {..<Suc j}) = Suc (card (set san \<inter> {..<j}))"
    by (simp only: e)
  with True show ?thesis by simp
next
  case False
  then have "set san \<inter> {..<Suc j} = set san \<inter> {..<j}"
    by (auto simp: less_Suc_eq)
  with False show ?thesis by simp
qed

lemma constraint_loop_invariant:
  assumes K: "0 < max_stim_to_keep m"
  shows "index_sup (constraint_loop m stim san j) = int (card (set san \<inter> {..<j}))
    \<and> index_inf (constraint_loop m stim san j)
        = max 0 (index_sup (constraint_loop m stim san j) - max_stim_to_keep m)
    \<and> stim_index (constraint_loop m stim san j)
        = py_range (index_inf (constraint_loop m stim san j))
            (index_sup (constraint_loop m stim san j))
    \<and> length (constraints (constraint_loop m stim san j)) = j"
proof (induction j)
  case 0
  show ?case using K by (simp add: constraint_loop_0 initial_state_def py_range_def)
next
  case (Suc j)
  let ?st = "constraint_loop m stim san j"
  from Suc.IH have sup: "index_sup ?st = int (card (set san \<inter> {..<j}))"
    and inf: "index_inf ?st = max 0 (index_sup ?st - max_stim_to_keep m)"
    and idx: "stim_index ?st = py_range (index_inf ?st) (index_sup ?st)"
    and len: "length (constraints ?st) = j"
    by simp_all
  have 1: "index_sup (constraint_loop m stim san (Suc j)) = int (card (set san \<inter> {..<Suc j}))"
    by (simp add: constraint_loop_Suc cn_sum_step_index_sup sup card_nodes_Suc)
  have 2: "index_inf (constraint_loop m stim san (Suc j))
        = max 0 (index_sup (constraint_loop m stim san (Suc j)) - max_stim_to_keep m)"
    using inf by (auto simp: constraint_loop_Suc cn_sum_step_index_sup cn_sum_step_index_inf)
  have 3: "stim_index (constraint_loop m stim san (Suc j))
        = py_range (index_inf (constraint_loop m stim san (Suc j)))
            (index_sup (constraint_loop m stim san (Suc j)))"
  proof (cases "j \<in> set san")
    case True
    then show ?thesis by (simp add: constraint_loop_Suc cn_sum_step_stim_index)
  next
    case False
    then show ?thesis
      using idx
      by (simp add: constraint_loop_Suc cn_sum_step_stim_index cn_sum_step_index_sup
          cn_sum_step_index_inf)
  qed
  have 4: "length (constraints (constraint_loop m stim san (Suc j))) = Suc j"
    by (simp add: constraint_loop_Suc cn_sum_step_constraints len)
  from 1 2 3 4 show ?case by blast
qed





lemma last_upto: "a \<le> b \<Longrightarrow> last [a..b] = (b::int)"
  by (simp add: upto_rec2)


lemma upto_nonempty: "a \<le> b \<Longrightarrow> [a..b] \<noteq> ([] :: int list)"
  by (simp add: upto_rec1)

lemma upto_empty: "b < a \<Longrightarrow> [a..b] = ([] :: int list)"
  by simp

section \<open>The constraint builder: the truncation window\<close>




section \<open>The constraint builder: monotonicity\<close>

text \<open>
  C9: for every list of nodes assigned to the stimulations (so for every stimulation list
  and horizon), if node \<open>i\<close> precedes node \<open>j\<close> (or is \<open>j\<close>), the upper window bound
  \<open>index_sup\<close> after the iteration of node \<open>i\<close> is at most the one after the iteration of
  node \<open>j\<close>; and with a positive window, when node \<open>i\<close> has a last stimulation index, node
  \<open>j\<close> has one too, and it is not smaller.
\<close>

theorem index_sup_never_decreases:
  "i \<le> j \<Longrightarrow>
     index_sup (constraint_loop m stim_time stim_at_node (Suc i))
       \<le> index_sup (constraint_loop m stim_time stim_at_node (Suc j))
   \<and> (0 < max_stim_to_keep m \<longrightarrow>
        stim_index (constraint_loop m stim_time stim_at_node (Suc i)) \<noteq> [] \<longrightarrow>
          stim_index (constraint_loop m stim_time stim_at_node (Suc j)) \<noteq> []
          \<and> last (stim_index (constraint_loop m stim_time stim_at_node (Suc i)))
              \<le> last (stim_index (constraint_loop m stim_time stim_at_node (Suc j))))"
proof (intro conjI impI)
  let ?si = "constraint_loop m stim_time stim_at_node (Suc i)"
  let ?sj = "constraint_loop m stim_time stim_at_node (Suc j)"
  let ?K = "max_stim_to_keep m"
  assume ij: "i \<le> j"
  then show mono: "index_sup ?si \<le> index_sup ?sj"
    by (intro index_sup_mono) simp
  assume K: "0 < ?K" and ne: "stim_index ?si \<noteq> []"
  have shape: "stim_index (constraint_loop m stim_time stim_at_node n)
      = [max 0 (index_sup (constraint_loop m stim_time stim_at_node n) - ?K)
         ..index_sup (constraint_loop m stim_time stim_at_node n) - 1]" for n
    using constraint_loop_invariant [OF K, of stim_time stim_at_node n]
    by (simp add: py_range_def)
  have pos: "1 \<le> index_sup ?si"
  proof (rule ccontr)
    assume "\<not> 1 \<le> index_sup ?si"
    then have "index_sup ?si - 1 < max 0 (index_sup ?si - ?K)" by simp
    then have "stim_index ?si = []" by (subst shape) (rule upto_empty)
    with ne show False by simp
  qed
  with mono have posj: "1 \<le> index_sup ?sj" by simp
  have li: "max 0 (index_sup ?si - ?K) \<le> index_sup ?si - 1"
    and lj: "max 0 (index_sup ?sj - ?K) \<le> index_sup ?sj - 1"
    using K pos posj by linarith+
  show "stim_index ?sj \<noteq> []"
    using lj by (subst shape) (rule upto_nonempty)
  have "last (stim_index ?si) = index_sup ?si - 1"
    using li by (subst shape) (rule last_upto)
  moreover have "last (stim_index ?sj) = index_sup ?sj - 1"
    using lj by (subst shape) (rule last_upto)
  ultimately show "last (stim_index ?si) \<le> last (stim_index ?sj)"
    using mono by simp
qed

theorem index_sup_never_decreases_witness:
  "(0 :: nat) \<le> 2
   \<and> index_sup (constraint_loop (DingModelFrequency (Some 2) True) [0, 1 / 4, 1 / 2, 3 / 4]
        [0, 1, 2, 3] (Suc 0)) = 1
   \<and> index_sup (constraint_loop (DingModelFrequency (Some 2) True) [0, 1 / 4, 1 / 2, 3 / 4]
        [0, 1, 2, 3] (Suc 2)) = 3
   \<and> 0 < max_stim_to_keep (DingModelFrequency (Some 2) True)
   \<and> stim_index (constraint_loop (DingModelFrequency (Some 2) True) [0, 1 / 4, 1 / 2, 3 / 4]
        [0, 1, 2, 3] (Suc 0)) \<noteq> []
   \<and> last (stim_index (constraint_loop (DingModelFrequency (Some 2) True)
        [0, 1 / 4, 1 / 2, 3 / 4] [0, 1, 2, 3] (Suc 0)))
      \<le> last (stim_index (constraint_loop (DingModelFrequency (Some 2) True)
        [0, 1 / 4, 1 / 2, 3 / 4] [0, 1, 2, 3] (Suc 2)))"
proof -
  let ?m = "DingModelFrequency (Some 2) True"
  let ?s = "\<lambda>n. constraint_loop ?m [0, 1 / 4, 1 / 2, 3 / 4] [0, 1, 2, 3] n"
  have a: "(0 :: nat) \<le> 2" by simp
  have b: "index_sup (?s (Suc 0)) = 1" by code_simp
  have c: "index_sup (?s (Suc 2)) = 3" by code_simp
  have d: "0 < max_stim_to_keep ?m" by code_simp
  have e: "stim_index (?s (Suc 0)) \<noteq> []" by code_simp
  from index_sup_never_decreases [OF a, of ?m "[0, 1 / 4, 1 / 2, 3 / 4]" "[0, 1, 2, 3]"] d e
  have "last (stim_index (?s (Suc 0))) \<le> last (stim_index (?s (Suc 2)))" by blast
  with a b c d e show ?thesis by blast
qed

end
